theory Spec2Isabelle
  imports Main "HOL-Library.Char_ord" "HOL-Library.List_Lexorder" "HOL-Library.Multiset"
begin

section \<open>The file server of \<^verbatim>\<open>app.py\<close>: scanning a directory and rendering the index page\<close>

text \<open>
  The program serves one page that lists the files of a directory. The page is built by
  \<^verbatim>\<open>index\<close>, which calls \<^verbatim>\<open>read_files\<close> to collect the files, sorts them, and
  appends the card that \<^verbatim>\<open>WebFile.generate_html\<close> renders for each one.

  What the operating system, \<^verbatim>\<open>pathlib\<close>, \<^verbatim>\<open>open\<close> and \<^verbatim>\<open>libmagic\<close> answer is the
  input of the model: a \<open>filesystem\<close> maps every path to the node found there. Exceptions
  are values of \<open>exn\<close>, and what \<^verbatim>\<open>print\<close> writes is a list of lines that is passed
  through every function that can print. \<open>OSError\<close> stands for the class and its
  subclasses (\<^verbatim>\<open>PermissionError\<close>, \<^verbatim>\<open>FileNotFoundError\<close>, \<^verbatim>\<open>NotADirectoryError\<close>).
\<close>

subsection \<open>Exceptions, paths and the file system\<close>

datatype exn =
    TypeError string
  | ValueError
  | OSError
  | UnicodeDecodeError
  | RecursionError

text \<open>
  A \<^verbatim>\<open>pathlib.Path\<close> is the list of its parts. \<^verbatim>\<open>directory / name\<close> is
  \<open>directory @ [name]\<close>. Paths compare as the lists of their parts do, and the parts as
  strings do, character by character: the lexicographic order of lists over the order of
  characters.
\<close>

type_synonym path = "string list"

fun join_parts :: "string list \<Rightarrow> string" where
  "join_parts [] = ''''"
| "join_parts [p] = p"
| "join_parts (p # q # ps) = p @ ''/'' @ join_parts (q # ps)"

definition path_str :: "path \<Rightarrow> string" where
  \<comment> \<open>\<^verbatim>\<open>str(path)\<close>: the parts joined by a slash; an anchor \<^verbatim>\<open>/\<close> is the first part
      and is not followed by another slash; the empty path prints as a dot.\<close>
  "path_str p =
     (case p of
        [] \<Rightarrow> ''.''
      | a # rest \<Rightarrow> if a = ''/'' then a @ join_parts rest else join_parts p)"

definition relative_to :: "path \<Rightarrow> path \<Rightarrow> exn + path" where
  \<comment> \<open>\<^verbatim>\<open>path.relative_to(base)\<close> raises \<^verbatim>\<open>ValueError\<close> unless \<open>base\<close> is a prefix.\<close>
  "relative_to p base =
     (if take (length base) p = base then Inr (drop (length base) p) else Inl ValueError)"

text \<open>
  A regular file answers two calls of the program: \<^verbatim>\<open>mime.from_file(path)\<close>, which
  returns the detected type or raises, and \<^verbatim>\<open>open(path, 'r', encoding='utf-8')\<close> followed
  by \<^verbatim>\<open>f.read()\<close>, which returns the decoded text or raises (\<^verbatim>\<open>UnicodeDecodeError\<close>
  when the bytes are not valid UTF-8, \<^verbatim>\<open>OSError\<close> when the file cannot be opened). The
  text that \<open>read_utf8\<close> holds is the string that \<^verbatim>\<open>f.read()\<close> returns.

  A directory answers \<^verbatim>\<open>iterdir\<close> with the names of its entries, in the order the file
  system reports them, or with the exception that listing it raises (\<^verbatim>\<open>PermissionError\<close>
  for a directory without read permission).

  \<^verbatim>\<open>is_file\<close> and \<^verbatim>\<open>is_dir\<close> follow symbolic links, so a link is the node it points to.
  They answer \<^verbatim>\<open>False\<close> where \<^verbatim>\<open>stat\<close> fails with \<^verbatim>\<open>ENOENT\<close>, \<^verbatim>\<open>ENOTDIR\<close>, \<^verbatim>\<open>EBADF\<close> or
  \<^verbatim>\<open>ELOOP\<close>: the node \<open>Missing\<close>. The last of these is what the kernel answers for a
  path that runs through more symbolic links than it follows, so a link back to an
  ancestor is a directory down to that many links and \<open>Missing\<close> below. \<open>Special\<close> is
  what exists and is neither a regular file nor a directory. For every other failure
  of \<^verbatim>\<open>stat\<close> (\<^verbatim>\<open>EACCES\<close> below a directory without search permission) both methods
  raise the \<^verbatim>\<open>OSError\<close> on Python 3.12 and earlier: the node \<open>Denied\<close>.
\<close>

record file_info =
  mime_from_file :: "exn + string"
  read_utf8 :: "exn + string"

datatype node =
    Missing
  | Special
  | Denied
  | File file_info
  | Dir "exn + string list"

type_synonym filesystem = "path \<Rightarrow> node"

definition is_file :: "filesystem \<Rightarrow> path \<Rightarrow> exn + bool" where
  "is_file fs p =
     (case fs p of File _ \<Rightarrow> Inr True | Denied \<Rightarrow> Inl OSError | _ \<Rightarrow> Inr False)"

definition is_dir :: "filesystem \<Rightarrow> path \<Rightarrow> exn + bool" where
  "is_dir fs p =
     (case fs p of Dir _ \<Rightarrow> Inr True | Denied \<Rightarrow> Inl OSError | _ \<Rightarrow> Inr False)"

definition iterdir :: "filesystem \<Rightarrow> path \<Rightarrow> exn + string list" where
  \<comment> \<open>Listing what is not a directory raises \<^verbatim>\<open>NotADirectoryError\<close>, an \<^verbatim>\<open>OSError\<close>.\<close>
  "iterdir fs p = (case fs p of Dir listing \<Rightarrow> listing | _ \<Rightarrow> Inl OSError)"

definition from_file :: "filesystem \<Rightarrow> path \<Rightarrow> exn + string" where
  \<comment> \<open>\<^verbatim>\<open>mime.from_file(path)\<close>; what is not a regular file cannot be opened.\<close>
  "from_file fs p = (case fs p of File fi \<Rightarrow> mime_from_file fi | _ \<Rightarrow> Inl OSError)"

definition open_read :: "filesystem \<Rightarrow> path \<Rightarrow> exn + string" where
  \<comment> \<open>\<^verbatim>\<open>with open(path, 'r', encoding='utf-8') as f: f.read()\<close>\<close>
  "open_read fs p = (case fs p of File fi \<Rightarrow> read_utf8 fi | _ \<Rightarrow> Inl OSError)"

subsection \<open>The command line and the output\<close>

text \<open>
  \<^verbatim>\<open>args\<close> holds the parsed command line; \<^verbatim>\<open>scan_dir\<close> is \<^verbatim>\<open>pathlib.Path(args.directory)\<close>.
  The address, the port and the debug flag are read only by \<^verbatim>\<open>app.run\<close>.
\<close>

record args =
  directory :: path
  recursive :: bool
  verbose :: bool

type_synonym stdout = "string list"

definition scan_dir :: "args \<Rightarrow> path" where
  "scan_dir a = directory a"

definition vprint :: "args \<Rightarrow> string \<Rightarrow> stdout \<Rightarrow> stdout" where
  "vprint a message out = (if \<not> verbose a then out else out @ [message])"

subsection \<open>The page's fixed text\<close>

definition HTML_HEAD :: string where
  \<open>HTML_HEAD = ''
<!DOCTYPE html>
<html lang="en">
<head>
<meta charset="UTF-8">
<meta name="viewport" content="width=device-width, initial-scale=1.0">
<title>Web dump</title>
<style>
    .scroll-box {
        width: 300px; /* Set the width of the box */
        height: 200px; /* Set the height of the box */
        overflow: auto; /* Enable scrolling */
        border: 1px solid #ccc; /* Add border for styling */
        padding: 10px; /* Add padding for content spacing */
    }
    .collapsible {
        cursor: pointer;
    }
    .content {
        margin-top:10px;
        display: none;
        overflow: hidden;
    }
    img {
        max-height:
        width: auto;
    }
    video {
        max-height: 300px;
        width: auto;
    }
</style>
<link href="https://cdn.jsdelivr.net/npm/bootstrap@5.3.0-alpha1/dist/css/bootstrap.min.css" rel="stylesheet">
</head>
<body class="bg-secondary-subtle">
<nav class="navbar navbar-dark bg-secondary" style="margin-bottom: 20px;">
  <a class="navbar-brand" style="margin-left: 10px;" href="#">Dump to web</a>
</nav>
''\<close>

definition HTML_FOOT :: string where
  \<open>HTML_FOOT = ''
<script>
    var coll = document.getElementsByClassName("collapsible");
    var i;

    for (i = 0; i < coll.length; i++) {
        coll[i].addEventListener("click", function() {
            this.classList.toggle("active");
            var content = this.nextElementSibling;
            if (content.style.display === "block") {
                this.textContent = "Open";
                content.style.display = "none";
            } else {
                this.textContent = "Close";
                content.style.display = "block";
            }
        });
    }
</script>
</body>
</html>
''\<close>

definition VIDEO_MIME_TYPES :: "string list" where
  "VIDEO_MIME_TYPES = [''video/mp4'', ''video/webm'', ''video/ogg'']"

definition IMAGE_MIME_TYPES :: "string list" where
  "IMAGE_MIME_TYPES =
     [''image/jpeg'', ''image/png'', ''image/gif'', ''image/svg+xml'', ''image/webp'',
      ''image/bmp'', ''image/x-icon'', ''image/tiff'', ''image/jp2'']"

subsection \<open>The HTML of one file\<close>

definition get_html_link :: "string \<Rightarrow> string \<Rightarrow> string" where
  \<open>get_html_link file_path file_type =
     (''<a class="link-primary" href="'' @ file_path @ ''" target="_blank">'' @ file_path @ ''</a>'')
     @ ('' <sub>('' @ file_type @ '')</sub>'')\<close>

definition get_html_text_plain :: "string \<Rightarrow> string" where
  \<open>get_html_text_plain text = ''<div class="scroll-box">'' @ text @ ''</div>''\<close>

definition get_html_image :: "string \<Rightarrow> string" where
  \<open>get_html_image file_path = ''<img src="'' @ file_path @ ''" alt="Image Description">''\<close>

definition get_html_video :: "string \<Rightarrow> string \<Rightarrow> string" where
  \<open>get_html_video file_path video_type =
     ''<video controls>''
     @ (''<source src="'' @ file_path @ ''" type="'' @ video_type @ ''">'')
     @ ''</video>''\<close>

record WebFile =
  file_path :: path
  file_rel_path :: path
  file_type :: "string option"
  html :: "string option"

definition WebFile_init :: "args \<Rightarrow> path \<Rightarrow> exn + WebFile" where
  "WebFile_init a p =
     (case relative_to p (scan_dir a) of
        Inl e \<Rightarrow> Inl e
      | Inr rel \<Rightarrow> Inr \<lparr>file_path = p, file_rel_path = rel, file_type = None, html = None\<rparr>)"

text \<open>
  The \<^verbatim>\<open>match\<close> statement of \<^verbatim>\<open>generate_html\<close>: the preview, \<open>None\<close> when no case sets
  it. Only \<^verbatim>\<open>UnicodeDecodeError\<close> is caught; any other exception of \<^verbatim>\<open>open\<close> or
  \<^verbatim>\<open>read\<close> leaves the method.
\<close>

definition match_file_type ::
  "filesystem \<Rightarrow> args \<Rightarrow> WebFile \<Rightarrow> string \<Rightarrow> stdout \<Rightarrow> (exn + string option) \<times> stdout" where
  "match_file_type fs a self t out =
     (if t = ''text/plain'' then
        (case open_read fs (file_path self) of
           Inr text \<Rightarrow> (Inr (Some (get_html_text_plain text)), out)
         | Inl UnicodeDecodeError \<Rightarrow>
             (Inr None, vprint a (''Failed to decode '' @ path_str (file_path self)) out)
         | Inl e \<Rightarrow> (Inl e, out))
      else if t \<in> set VIDEO_MIME_TYPES then
        (Inr (Some (get_html_video (path_str (file_rel_path self)) t)), out)
      else if t \<in> set IMAGE_MIME_TYPES then
        (Inr (Some (get_html_image (path_str (file_rel_path self)))), out)
      else (Inr None, out))"

definition preview_html :: "string option \<Rightarrow> string" where
  \<comment> \<open>\<^verbatim>\<open>if preview:\<close> holds for a string that is not empty.\<close>
  \<open>preview_html preview =
     (case preview of
        None \<Rightarrow> ''''
      | Some p \<Rightarrow>
          if p = '''' then ''''
          else '' <button class="collapsible btn btn-secondary btn-sm">Open</button>''
               @ ''<div class="content">''
               @ p
               @ ''</div>'')\<close>

definition card_head :: "WebFile \<Rightarrow> string \<Rightarrow> string" where
  \<comment> \<open>\<^verbatim>\<open>self.html\<close> before the \<^verbatim>\<open>match\<close> statement, with the detected type \<open>t\<close>.\<close>
  \<open>card_head self t =
     ''<div class="card bg-primary-subtle" style="width:90%; margin:0 auto;">''
     @ ''<div class="card-body">''
     @ get_html_link (path_str (file_rel_path self)) t\<close>

definition generate_html ::
  "filesystem \<Rightarrow> args \<Rightarrow> WebFile \<Rightarrow> stdout \<Rightarrow> (exn + WebFile) \<times> stdout" where
  "generate_html fs a self out =
     (case from_file fs (file_path self) of
        Inl e \<Rightarrow> (Inl e, out)
      | Inr t \<Rightarrow>
          (case match_file_type fs a self t out of
             (Inl e, out') \<Rightarrow> (Inl e, out')
           | (Inr preview, out') \<Rightarrow>
               (Inr (self\<lparr>file_type := Some t,
                          html := Some (card_head self t @ preview_html preview
                                        @ ''</div></div><br/>'')\<rparr>),
                out')))"

definition get_html :: "WebFile \<Rightarrow> string" where
  \<comment> \<open>\<^verbatim>\<open>self.html or ""\<close>\<close>
  "get_html self = (case html self of None \<Rightarrow> '''' | Some h \<Rightarrow> h)"

subsection \<open>Scanning\<close>

text \<open>
  \<^verbatim>\<open>read_files\<close> calls itself for every subdirectory. The interpreter bounds the depth
  of nested calls: the first argument of the model is the number of nested calls of
  \<^verbatim>\<open>read_files\<close> that the recursion limit still allows, and the call that would exceed it
  raises \<^verbatim>\<open>RecursionError\<close> before it prints anything. Nothing catches an exception in
  the scan, so each one ends it.
  \<open>read_files_loop\<close> is the \<^verbatim>\<open>for\<close> loop over \<^verbatim>\<open>directory.iterdir()\<close>; its first argument
  is the nested \<^verbatim>\<open>read_files\<close>.
\<close>

type_synonym scan_result = "(exn + path list) \<times> stdout"

fun read_files_loop ::
  "(path \<Rightarrow> stdout \<Rightarrow> scan_result) \<Rightarrow> filesystem \<Rightarrow> args \<Rightarrow> path \<Rightarrow> bool \<Rightarrow>
   string list \<Rightarrow> path list \<Rightarrow> stdout \<Rightarrow> scan_result" where
  "read_files_loop rf fs a d r [] objects out = (Inr objects, out)"
| "read_files_loop rf fs a d r (name # names) objects out =
     (case is_file fs (d @ [name]) of
        Inl e \<Rightarrow> (Inl e, out)
      | Inr True \<Rightarrow> read_files_loop rf fs a d r names (objects @ [d @ [name]]) out
      | Inr False \<Rightarrow>
          (case is_dir fs (d @ [name]) of
             Inl e \<Rightarrow> (Inl e, out)
           | Inr True \<Rightarrow>
               (if r then
                  (case rf (d @ [name]) out of
                     (Inl e, out') \<Rightarrow> (Inl e, out')
                   | (Inr sub, out') \<Rightarrow>
                       read_files_loop rf fs a d r names (objects @ sub) out')
                else read_files_loop rf fs a d r names objects out)
           | Inr False \<Rightarrow>
               read_files_loop rf fs a d r names objects
                 (vprint a (path_str (d @ [name]) @ '' is neither file nor directory, ignoring'')
                    out)))"

fun read_files :: "nat \<Rightarrow> filesystem \<Rightarrow> args \<Rightarrow> path \<Rightarrow> bool \<Rightarrow> stdout \<Rightarrow> scan_result" where
  "read_files 0 fs a d r out = (Inl RecursionError, out)"
| "read_files (Suc depth) fs a d r out =
     (case is_dir fs d of
        Inl e \<Rightarrow> (Inl e, out)
      | Inr False \<Rightarrow> (Inl (TypeError (path_str d @ '' is not a directory'')), out)
      | Inr True \<Rightarrow>
          (case iterdir fs d of
             Inl e \<Rightarrow> (Inl e, out)
           | Inr names \<Rightarrow>
               read_files_loop (\<lambda>sub. read_files depth fs a sub r) fs a d r names [] out))"

subsection \<open>The index route\<close>

fun index_loop ::
  "filesystem \<Rightarrow> args \<Rightarrow> path list \<Rightarrow> string \<Rightarrow> stdout \<Rightarrow> (exn + string) \<times> stdout" where
  "index_loop fs a [] page out = (Inr page, out)"
| "index_loop fs a (fil # rest) page out =
     (case WebFile_init a fil of
        Inl e \<Rightarrow> (Inl e, out)
      | Inr webfile \<Rightarrow>
          (case generate_html fs a webfile out of
             (Inl e, out') \<Rightarrow> (Inl e, out')
           | (Inr webfile', out') \<Rightarrow> index_loop fs a rest (page @ get_html webfile') out'))"

definition index :: "nat \<Rightarrow> filesystem \<Rightarrow> args \<Rightarrow> stdout \<Rightarrow> (exn + string) \<times> stdout" where
  \<comment> \<open>The first argument is the number of nested calls the recursion limit allows.\<close>
  "index depth fs a out =
     (case read_files depth fs a (scan_dir a) (recursive a) out of
        (Inl e, out') \<Rightarrow> (Inl e, out')
      | (Inr file_store, out') \<Rightarrow>
          (case index_loop fs a (sort file_store) HTML_HEAD out' of
             (Inl e, out'') \<Rightarrow> (Inl e, out'')
           | (Inr page, out'') \<Rightarrow> (Inr (page @ HTML_FOOT), out'')))"

subsection \<open>What the page is compared with\<close>

text \<open>
  The body of the loop of \<^verbatim>\<open>index\<close> for one file: the text that
  \<^verbatim>\<open>WebFile(fil)\<close>, \<^verbatim>\<open>generate_html()\<close> and \<^verbatim>\<open>get_html()\<close> add to the page, or the
  exception that leaves the loop.
\<close>

definition render_file ::
  "filesystem \<Rightarrow> args \<Rightarrow> path \<Rightarrow> stdout \<Rightarrow> (exn + string) \<times> stdout" where
  "render_file fs a fil out =
     (case WebFile_init a fil of
        Inl e \<Rightarrow> (Inl e, out)
      | Inr webfile \<Rightarrow>
          (case generate_html fs a webfile out of
             (Inl e, out') \<Rightarrow> (Inl e, out')
           | (Inr webfile', out') \<Rightarrow> (Inr (get_html webfile'), out')))"

definition file_card :: "filesystem \<Rightarrow> args \<Rightarrow> path \<Rightarrow> exn + string" where
  \<comment> \<open>The card of one file, rendered on its own.\<close>
  "file_card fs a fil = fst (render_file fs a fil [])"





text \<open>
  The same tree listed in another order: every directory lists the same names, each as
  often, and every other node is the same.
\<close>

definition relisted :: "filesystem \<Rightarrow> filesystem \<Rightarrow> bool" where
  "relisted fs fs' \<longleftrightarrow>
     (\<forall>p. case fs p of
            Dir (Inr names) \<Rightarrow> (\<exists>names'. fs' p = Dir (Inr names') \<and> mset names' = mset names)
          | _ \<Rightarrow> fs' p = fs p)"

text \<open>
  The escaping that the specification asks for, as \<^verbatim>\<open>html.escape\<close> of the standard library
  does it. The program never calls it.
\<close>

fun html_escape :: "string \<Rightarrow> string" where
  "html_escape [] = []"
| "html_escape (c # cs) =
     (if c = CHR ''&'' then ''&amp;''
      else if c = CHR ''<'' then ''&lt;''
      else if c = CHR ''>'' then ''&gt;''
      else if c = CHR 0x22 then ''&quot;''
      else if c = CHR 0x27 then ''&#x27;''
      else [c]) @ html_escape cs"

subsection \<open>The two loops without the output\<close>

text \<open>
  Both loops of the program run through a list, append what each element yields and stop
  at the first exception. \<open>gather\<close> is that loop without the printed output;
  \<open>entry_files\<close> is what one entry of a directory yields in \<^verbatim>\<open>read_files\<close>, given what
  the nested scan returns.
\<close>

fun gather :: "('a \<Rightarrow> exn + 'b list) \<Rightarrow> 'a list \<Rightarrow> 'b list \<Rightarrow> exn + 'b list" where
  "gather c [] acc = Inr acc"
| "gather c (x # xs) acc = (case c x of Inl e \<Rightarrow> Inl e | Inr ys \<Rightarrow> gather c xs (acc @ ys))"

definition produced :: "exn + 'b list \<Rightarrow> 'b list" where
  "produced res = (case res of Inl _ \<Rightarrow> [] | Inr ys \<Rightarrow> ys)"

definition entry_files ::
  "(path \<Rightarrow> exn + path list) \<Rightarrow> filesystem \<Rightarrow> path \<Rightarrow> bool \<Rightarrow> string \<Rightarrow> exn + path list" where
  "entry_files nested fs d r name =
     (case is_file fs (d @ [name]) of
        Inl e \<Rightarrow> Inl e
      | Inr True \<Rightarrow> Inr [d @ [name]]
      | Inr False \<Rightarrow>
          (case is_dir fs (d @ [name]) of
             Inl e \<Rightarrow> Inl e
           | Inr True \<Rightarrow> if r then nested (d @ [name]) else Inr []
           | Inr False \<Rightarrow> Inr []))"

text \<open>
  A run that starts when \<open>out\<close> is already printed, given the same run from an empty
  output: what the run prints comes after \<open>out\<close>.
\<close>

definition printed_after :: "stdout \<Rightarrow> 'r \<times> stdout \<Rightarrow> 'r \<times> stdout" where
  "printed_after out res = (fst res, out @ snd res)"

subsection \<open>Example file systems\<close>

definition text_file :: "string \<Rightarrow> node" where
  "text_file content = File \<lparr>mime_from_file = Inr ''text/plain'', read_utf8 = Inr content\<rparr>"

definition media_file :: "string \<Rightarrow> node" where
  \<comment> \<open>A file of a type that is not text: its bytes are no UTF-8 text.\<close>
  "media_file t = File \<lparr>mime_from_file = Inr t, read_utf8 = Inl UnicodeDecodeError\<rparr>"

definition undecodable_file :: node where
  "undecodable_file = File \<lparr>mime_from_file = Inr ''text/plain'', read_utf8 = Inl UnicodeDecodeError\<rparr>"

definition unreadable_file :: node where
  "unreadable_file = File \<lparr>mime_from_file = Inl OSError, read_utf8 = Inl OSError\<rparr>"

definition srv_args :: "bool \<Rightarrow> bool \<Rightarrow> args" where
  "srv_args r v = \<lparr>directory = [''srv''], recursive = r, verbose = v\<rparr>"

definition flat_fs :: filesystem where
  "flat_fs p =
     (if p = [''srv''] then Dir (Inr [''notes.txt'', ''b.png'', ''bad.txt''])
      else if p = [''srv'', ''notes.txt''] then text_file ''hello\<newline>world''
      else if p = [''srv'', ''b.png''] then media_file ''image/png''
      else if p = [''srv'', ''bad.txt''] then undecodable_file
      else Missing)"

definition deep_fs :: filesystem where
  "deep_fs p =
     (if p = [''srv''] then Dir (Inr [''sub'', ''sock'', ''a.txt''])
      else if p = [''srv'', ''a.txt''] then text_file ''<b>''
      else if p = [''srv'', ''sock''] then Special
      else if p = [''srv'', ''sub''] then Dir (Inr [''clip.mp4''])
      else if p = [''srv'', ''sub'', ''clip.mp4''] then media_file ''video/mp4''
      else Missing)"

definition empty_fs :: filesystem where
  "empty_fs p = (if p = [''srv''] then Dir (Inr []) else Missing)"



definition archive_fs :: filesystem where
  "archive_fs p =
     (if p = [''srv''] then Dir (Inr [''old''])
      else if p = [''srv'', ''old''] then Dir (Inr [''all.zip''])
      else if p = [''srv'', ''old'', ''all.zip''] then media_file ''application/zip''
      else Missing)"

definition flat_fs_relisted :: filesystem where
  \<comment> \<open>\<open>flat_fs\<close> with the entries of \<^verbatim>\<open>srv\<close> reported in another order.\<close>
  "flat_fs_relisted p =
     (if p = [''srv''] then Dir (Inr [''bad.txt'', ''notes.txt'', ''b.png''])
      else flat_fs p)"

definition sealed_fs :: filesystem where
  \<comment> \<open>\<^verbatim>\<open>srv/vault\<close> is a directory with read permission and without search permission:
      it can be listed, and no path below it can be examined.\<close>
  "sealed_fs p =
     (if p = [''srv''] then Dir (Inr [''a.txt'', ''vault''])
      else if p = [''srv'', ''a.txt''] then text_file ''a''
      else if p = [''srv'', ''vault''] then Dir (Inr [''key''])
      else if take 2 p = [''srv'', ''vault''] then Denied
      else Missing)"


section \<open>Properties\<close>

subsection \<open>Reading the file system\<close>

declare read_files.simps(2) [simp del]
declare read_files_loop.simps(2) [simp del]

lemma entry_cases [case_names regular denied directory other]:
  obtains "is_file fs p = Inr True" and "is_dir fs p = Inr False"
  | "is_file fs p = Inl OSError" and "is_dir fs p = Inl OSError"
  | "is_file fs p = Inr False" and "is_dir fs p = Inr True"
  | "is_file fs p = Inr False" and "is_dir fs p = Inr False"
  by (cases "fs p") (simp_all add: is_file_def is_dir_def)



lemma iterdir_is_dir: "iterdir fs d = Inr names \<Longrightarrow> is_dir fs d = Inr True"
  by (cases "fs d") (simp_all add: iterdir_def is_dir_def)


lemma read_files_listing:
  "iterdir fs d = Inr names \<Longrightarrow>
   read_files (Suc depth) fs a d r out =
     read_files_loop (\<lambda>sub. read_files depth fs a sub r) fs a d r names [] out"
  by (simp add: read_files.simps(2) iterdir_is_dir)

lemma read_files_unlistable:
  "is_dir fs d = Inr True \<Longrightarrow> iterdir fs d = Inl e \<Longrightarrow>
   read_files (Suc depth) fs a d r out = (Inl e, out)"
  by (simp add: read_files.simps(2))

lemma read_files_not_dir:
  "is_dir fs d = Inr False \<Longrightarrow>
   read_files (Suc depth) fs a d r out =
     (Inl (TypeError (path_str d @ '' is not a directory'')), out)"
  by (simp add: read_files.simps(2))

lemma read_files_denied:
  "is_dir fs d = Inl e \<Longrightarrow> read_files (Suc depth) fs a d r out = (Inl e, out)"
  by (simp add: read_files.simps(2))

lemma loop_step_file:
  "is_file fs (d @ [name]) = Inr True \<Longrightarrow>
   read_files_loop rf fs a d r (name # names) objects out =
     read_files_loop rf fs a d r names (objects @ [d @ [name]]) out"
  by (simp add: read_files_loop.simps(2))

lemma loop_step_raise:
  "is_file fs (d @ [name]) = Inl e \<Longrightarrow>
   read_files_loop rf fs a d r (name # names) objects out = (Inl e, out)"
  by (simp add: read_files_loop.simps(2))

lemma loop_step_other:
  "is_file fs (d @ [name]) = Inr False \<Longrightarrow> is_dir fs (d @ [name]) = Inr False \<Longrightarrow>
   read_files_loop rf fs a d r (name # names) objects out =
     read_files_loop rf fs a d r names objects
       (vprint a (path_str (d @ [name]) @ '' is neither file nor directory, ignoring'') out)"
  by (simp add: read_files_loop.simps(2))

lemma loop_step_skip:
  "is_file fs (d @ [name]) = Inr False \<Longrightarrow> is_dir fs (d @ [name]) = Inr True \<Longrightarrow>
   read_files_loop rf fs a d False (name # names) objects out =
     read_files_loop rf fs a d False names objects out"
  by (simp add: read_files_loop.simps(2))

lemma loop_step_descend:
  "is_file fs (d @ [name]) = Inr False \<Longrightarrow> is_dir fs (d @ [name]) = Inr True \<Longrightarrow>
   rf (d @ [name]) out = (Inr sub, out') \<Longrightarrow>
   read_files_loop rf fs a d True (name # names) objects out =
     read_files_loop rf fs a d True names (objects @ sub) out'"
  by (simp add: read_files_loop.simps(2))

lemma loop_step_descend_raise:
  "is_file fs (d @ [name]) = Inr False \<Longrightarrow> is_dir fs (d @ [name]) = Inr True \<Longrightarrow>
   rf (d @ [name]) out = (Inl e, out') \<Longrightarrow>
   read_files_loop rf fs a d True (name # names) objects out = (Inl e, out')"
  by (simp add: read_files_loop.simps(2))

subsection \<open>The card of one file\<close>

lemma generate_html_typed:
  "from_file fs (file_path w) = Inr t \<Longrightarrow>
   generate_html fs a w out =
     (case match_file_type fs a w t out of
        (Inl e, out') \<Rightarrow> (Inl e, out')
      | (Inr preview, out') \<Rightarrow>
          (Inr (w\<lparr>file_type := Some t,
                   html := Some (card_head w t @ preview_html preview @ ''</div></div><br/>'')\<rparr>),
           out'))"
  by (simp add: generate_html_def)

lemma video_types: "set VIDEO_MIME_TYPES = {''video/mp4'', ''video/webm'', ''video/ogg''}"
  by (simp add: VIDEO_MIME_TYPES_def)

lemma image_types:
  "set IMAGE_MIME_TYPES =
     {''image/jpeg'', ''image/png'', ''image/gif'', ''image/svg+xml'', ''image/webp'',
      ''image/bmp'', ''image/x-icon'', ''image/tiff'', ''image/jp2''}"
  by (simp add: IMAGE_MIME_TYPES_def)

lemma video_starts: "t \<in> set VIDEO_MIME_TYPES \<Longrightarrow> hd t = CHR ''v''"
  by (auto simp add: VIDEO_MIME_TYPES_def)

lemma image_starts: "t \<in> set IMAGE_MIME_TYPES \<Longrightarrow> hd t = CHR ''i''"
  by (auto simp add: IMAGE_MIME_TYPES_def)

lemma video_not_text: "t \<in> set VIDEO_MIME_TYPES \<Longrightarrow> t \<noteq> ''text/plain''"
  by (auto dest: video_starts)

lemma image_not_text: "t \<in> set IMAGE_MIME_TYPES \<Longrightarrow> t \<noteq> ''text/plain''"
  by (auto dest: image_starts)

lemma image_not_video: "t \<in> set IMAGE_MIME_TYPES \<Longrightarrow> t \<notin> set VIDEO_MIME_TYPES"
proof
  assume i: "t \<in> set IMAGE_MIME_TYPES" and v: "t \<in> set VIDEO_MIME_TYPES"
  from image_starts [OF i] video_starts [OF v] show False by simp
qed

lemma match_video:
  "t \<in> set VIDEO_MIME_TYPES \<Longrightarrow>
   match_file_type fs a w t out = (Inr (Some (get_html_video (path_str (file_rel_path w)) t)), out)"
  by (simp add: match_file_type_def video_not_text)

lemma match_image:
  "t \<in> set IMAGE_MIME_TYPES \<Longrightarrow>
   match_file_type fs a w t out = (Inr (Some (get_html_image (path_str (file_rel_path w)))), out)"
  by (simp add: match_file_type_def image_not_text image_not_video)

lemma match_other:
  "t \<noteq> ''text/plain'' \<Longrightarrow> t \<notin> set VIDEO_MIME_TYPES \<Longrightarrow> t \<notin> set IMAGE_MIME_TYPES \<Longrightarrow>
   match_file_type fs a w t out = (Inr None, out)"
  by (simp add: match_file_type_def)

lemma match_text:
  "open_read fs (file_path w) = Inr text \<Longrightarrow>
   match_file_type fs a w ''text/plain'' out = (Inr (Some (get_html_text_plain text)), out)"
  by (simp add: match_file_type_def)


lemma preview_html_Some:
  \<open>p \<noteq> [] \<Longrightarrow>
   preview_html (Some p) =
     '' <button class="collapsible btn btn-secondary btn-sm">Open</button>''
     @ ''<div class="content">'' @ p @ ''</div>''\<close>
  unfolding preview_html_def by simp

lemma preview_html_None: "preview_html None = []"
  by (simp add: preview_html_def)

lemma get_html_video_not_empty: "get_html_video f t \<noteq> []"
  by (simp add: get_html_video_def)

lemma get_html_image_not_empty: "get_html_image f \<noteq> []"
  by (simp add: get_html_image_def)

lemma get_html_text_plain_not_empty: "get_html_text_plain text \<noteq> []"
  by (simp add: get_html_text_plain_def)

subsection \<open>The loop without the output\<close>

lemma produced_Inr [simp]: "produced (Inr ys) = ys"
  by (simp add: produced_def)

lemma gather_Inr:
  "gather c xs acc = Inr res \<Longrightarrow>
   (\<forall>x\<in>set xs. \<exists>ys. c x = Inr ys) \<and> res = acc @ concat (map (\<lambda>x. produced (c x)) xs)"
proof (induction xs arbitrary: acc)
  case Nil
  then show ?case by simp
next
  case (Cons x xs)
  from Cons.prems obtain ys where ys: "c x = Inr ys" and rest: "gather c xs (acc @ ys) = Inr res"
    by (cases "c x") simp_all
  from Cons.IH [OF rest] ys show ?case by simp
qed

lemma gather_all_Inr:
  "\<forall>x\<in>set xs. \<exists>ys. c x = Inr ys \<Longrightarrow>
   gather c xs acc = Inr (acc @ concat (map (\<lambda>x. produced (c x)) xs))"
proof (induction xs arbitrary: acc)
  case Nil
  show ?case by simp
next
  case (Cons x xs)
  from Cons.prems obtain ys where ys: "c x = Inr ys" by auto
  from Cons.prems have "\<forall>x\<in>set xs. \<exists>ys. c x = Inr ys" by simp
  from Cons.IH [OF this, of "acc @ ys"] ys show ?case by simp
qed



lemma gather_cong:
  "\<forall>x\<in>set xs. c x = c' x \<Longrightarrow> gather c xs acc = gather c' xs acc"
  by (induction xs arbitrary: acc) (simp_all split: sum.splits)


lemma mset_concat_map:
  "mset (concat (map f xs)) = (\<Sum>x\<in>#mset xs. mset (f x))"
  by (induction xs) simp_all

subsection \<open>What is printed never changes the result\<close>

lemma printed_after_Nil [simp]: "printed_after [] res = res"
  by (simp add: printed_after_def)

lemma printed_after_pair [simp]: "printed_after out (x, msgs) = (x, out @ msgs)"
  by (simp add: printed_after_def)

lemma printed_after_twice [simp]:
  "printed_after out (printed_after msgs res) = printed_after (out @ msgs) res"
  by (simp add: printed_after_def)

lemma fst_printed_after [simp]: "fst (printed_after out res) = fst res"
  by (simp add: printed_after_def)

lemma vprint_frame: "vprint a m out = out @ vprint a m []"
  by (simp add: vprint_def)

lemma read_files_loop_frame:
  assumes rf: "\<And>p out. rf p out = printed_after out (rf p [])"
  shows "read_files_loop rf fs a d r names objects out =
         printed_after out (read_files_loop rf fs a d r names objects [])"
proof (induction names arbitrary: objects out)
  case Nil
  show ?case by simp
next
  case (Cons name names)
  show ?case
  proof (cases fs "d @ [name]" rule: entry_cases)
    case regular
    then show ?thesis
      using Cons.IH [of "objects @ [d @ [name]]" out] by (simp add: loop_step_file)
  next
    case denied
    then show ?thesis by (simp add: loop_step_raise)
  next
    case other
    let ?m = "vprint a (path_str (d @ [name]) @ '' is neither file nor directory, ignoring'') []"
    have "read_files_loop rf fs a d r (name # names) objects out =
          read_files_loop rf fs a d r names objects (out @ ?m)"
      using other vprint_frame [of a _ out] by (simp add: loop_step_other)
    also have "\<dots> = printed_after (out @ ?m) (read_files_loop rf fs a d r names objects [])"
      by (rule Cons.IH)
    also have "\<dots> = printed_after out
        (printed_after ?m (read_files_loop rf fs a d r names objects []))"
      by simp
    also have "printed_after ?m (read_files_loop rf fs a d r names objects []) =
               read_files_loop rf fs a d r names objects ?m"
      by (rule Cons.IH [symmetric])
    also have "\<dots> = read_files_loop rf fs a d r (name # names) objects []"
      using other by (simp add: loop_step_other)
    finally show ?thesis .
  next
    case directory
    show ?thesis
    proof (cases r)
      case False
      then show ?thesis
        using directory Cons.IH [of objects out] by (simp add: loop_step_skip)
    next
      case True
      obtain x msgs where here: "rf (d @ [name]) [] = (x, msgs)"
        by (cases "rf (d @ [name]) []")
      then have there: "rf (d @ [name]) out = (x, out @ msgs)"
        using rf [of "d @ [name]" out] by simp
      show ?thesis
      proof (cases x)
        case (Inl e)
        then show ?thesis
          using directory True here there by (simp add: loop_step_descend_raise)
      next
        case (Inr sub)
        have "read_files_loop rf fs a d r (name # names) objects out =
              read_files_loop rf fs a d r names (objects @ sub) (out @ msgs)"
          using directory True there Inr by (simp add: loop_step_descend)
        also have "\<dots> = printed_after (out @ msgs)
            (read_files_loop rf fs a d r names (objects @ sub) [])"
          by (rule Cons.IH)
        also have "\<dots> = printed_after out
            (printed_after msgs (read_files_loop rf fs a d r names (objects @ sub) []))"
          by simp
        also have "printed_after msgs (read_files_loop rf fs a d r names (objects @ sub) []) =
                   read_files_loop rf fs a d r names (objects @ sub) msgs"
          by (rule Cons.IH [symmetric])
        also have "\<dots> = read_files_loop rf fs a d r (name # names) objects []"
          using directory True here Inr by (simp add: loop_step_descend)
        finally show ?thesis .
      qed
    qed
  qed
qed

lemma read_files_frame:
  "read_files depth fs a d r out = printed_after out (read_files depth fs a d r [])"
proof (induction depth arbitrary: d out)
  case 0
  show ?case by simp
next
  case (Suc depth)
  show ?case
  proof (cases fs d rule: entry_cases)
    case regular
    then show ?thesis by (simp add: read_files_not_dir)
  next
    case denied
    then show ?thesis by (simp add: read_files_denied)
  next
    case other
    then show ?thesis by (simp add: read_files_not_dir)
  next
    case directory
    show ?thesis
    proof (cases "iterdir fs d")
      case (Inl e)
      with directory show ?thesis by (simp add: read_files_unlistable)
    next
      case (Inr names)
      show ?thesis
        unfolding read_files_listing [OF Inr]
        by (rule read_files_loop_frame) (rule Suc.IH)
    qed
  qed
qed

lemma read_files_result:
  "read_files depth fs a d r out =
     (fst (read_files depth fs a d r []), out @ snd (read_files depth fs a d r []))"
  using read_files_frame [of depth fs a d r out] by (simp add: printed_after_def)

subsection \<open>The scan as a loop without output\<close>

lemma entry_files_regular:
  "is_file fs (d @ [name]) = Inr True \<Longrightarrow> entry_files nested fs d r name = Inr [d @ [name]]"
  by (simp add: entry_files_def)

lemma entry_files_denied:
  "is_file fs (d @ [name]) = Inl e \<Longrightarrow> entry_files nested fs d r name = Inl e"
  by (simp add: entry_files_def)

lemma entry_files_other:
  "is_file fs (d @ [name]) = Inr False \<Longrightarrow> is_dir fs (d @ [name]) = Inr False \<Longrightarrow>
   entry_files nested fs d r name = Inr []"
  by (simp add: entry_files_def)

lemma entry_files_directory:
  "is_file fs (d @ [name]) = Inr False \<Longrightarrow> is_dir fs (d @ [name]) = Inr True \<Longrightarrow>
   entry_files nested fs d r name = (if r then nested (d @ [name]) else Inr [])"
  by (simp add: entry_files_def)

lemma read_files_loop_gather:
  assumes rf: "\<And>p out. rf p out = printed_after out (rf p [])"
  shows "fst (read_files_loop rf fs a d r names objects out) =
         gather (entry_files (\<lambda>p. fst (rf p [])) fs d r) names objects"
proof (induction names arbitrary: objects out)
  case Nil
  show ?case by simp
next
  case (Cons name names)
  show ?case
  proof (cases fs "d @ [name]" rule: entry_cases)
    case regular
    then show ?thesis
      using Cons.IH by (simp add: loop_step_file entry_files_regular)
  next
    case denied
    then show ?thesis by (simp add: loop_step_raise entry_files_denied)
  next
    case other
    then show ?thesis
      using Cons.IH by (simp add: loop_step_other entry_files_other)
  next
    case directory
    show ?thesis
    proof (cases r)
      case False
      then show ?thesis
        using directory Cons.IH by (simp add: loop_step_skip entry_files_directory)
    next
      case True
      obtain x msgs where here: "rf (d @ [name]) [] = (x, msgs)"
        by (cases "rf (d @ [name]) []")
      then have there: "rf (d @ [name]) out = (x, out @ msgs)"
        using rf [of "d @ [name]" out] by simp
      show ?thesis
      proof (cases x)
        case (Inl e)
        then show ?thesis
          using directory True here there
          by (simp add: loop_step_descend_raise entry_files_directory)
      next
        case (Inr sub)
        then show ?thesis
          using directory True here there Cons.IH
          by (simp add: loop_step_descend entry_files_directory)
      qed
    qed
  qed
qed

lemma read_files_gather:
  "iterdir fs d = Inr names \<Longrightarrow>
   fst (read_files (Suc depth) fs a d r out) =
     gather (entry_files (\<lambda>p. fst (read_files depth fs a p r [])) fs d r) names []"
  unfolding read_files_listing
  by (rule read_files_loop_gather) (rule read_files_frame)

lemma read_files_Inr_listing:
  assumes "fst (read_files depth fs a d r out) = Inr files"
  obtains depth' names where "depth = Suc depth'" and "iterdir fs d = Inr names"
proof -
  from assms obtain depth' where depth: "depth = Suc depth'"
    by (cases depth) simp_all
  have "\<exists>names. iterdir fs d = Inr names"
  proof (cases fs d rule: entry_cases)
    case regular
    with assms show ?thesis by (simp add: depth read_files_not_dir)
  next
    case denied
    with assms show ?thesis by (simp add: depth read_files_denied)
  next
    case other
    with assms show ?thesis by (simp add: depth read_files_not_dir)
  next
    case directory
    with assms show ?thesis
      by (cases "iterdir fs d") (simp_all add: depth read_files_unlistable)
  qed
  with depth that show ?thesis by blast
qed

subsection \<open>What the scan collects\<close>

text \<open>Every collected path is a regular file and extends the path of the scanned directory.\<close>

lemma read_files_found:
  "fst (read_files depth fs a d r out) = Inr files \<Longrightarrow>
   \<forall>p\<in>set files. is_file fs p = Inr True \<and> take (length d) p = d"
proof (induction depth arbitrary: d files out)
  case 0
  then show ?case by simp
next
  case (Suc depth)
  from Suc.prems obtain names where names: "iterdir fs d = Inr names"
    by (rule read_files_Inr_listing)
  let ?c = "entry_files (\<lambda>p. fst (read_files depth fs a p r [])) fs d r"
  from Suc.prems have g: "gather ?c names [] = Inr files"
    by (simp add: read_files_gather [OF names])
  from gather_Inr [OF g] have ok: "\<forall>name\<in>set names. \<exists>ys. ?c name = Inr ys"
    and files: "files = concat (map (\<lambda>name. produced (?c name)) names)"
    by simp_all
  show ?case
  proof
    fix p assume "p \<in> set files"
    then obtain name where name: "name \<in> set names" and p: "p \<in> set (produced (?c name))"
      by (auto simp add: files)
    show "is_file fs p = Inr True \<and> take (length d) p = d"
    proof (cases fs "d @ [name]" rule: entry_cases)
      case regular
      with p show ?thesis by (simp add: entry_files_regular)
    next
      case denied
      from ok name obtain ys where "?c name = Inr ys" by blast
      with denied show ?thesis by (simp add: entry_files_denied)
    next
      case other
      with p show ?thesis by (simp add: entry_files_other)
    next
      case directory
      show ?thesis
      proof (cases r)
        case False
        with directory p show ?thesis by (simp add: entry_files_directory)
      next
        case True
        from ok name obtain ys where ys: "?c name = Inr ys" by blast
        with directory True have sub: "fst (read_files depth fs a (d @ [name]) r []) = Inr ys"
          by (simp add: entry_files_directory)
        from p ys have "p \<in> set ys" by simp
        with Suc.IH [OF sub] have "is_file fs p = Inr True"
          and "take (length (d @ [name])) p = d @ [name]"
          by blast+
        moreover from this(2)
        have "take (length d) (take (length (d @ [name])) p) = take (length d) (d @ [name])"
          by simp
        then have "take (length d) p = d" by (simp add: min_def)
        ultimately show ?thesis by simp
      qed
    qed
  qed
qed





subsection \<open>The scan of a tree\<close>















subsection \<open>The same tree listed in another order\<close>

lemma relisted_node:
  assumes "relisted fs fs'"
  shows "is_file fs' p = is_file fs p" and "is_dir fs' p = is_dir fs p"
    and "from_file fs' p = from_file fs p" and "open_read fs' p = open_read fs p"
proof -
  from assms have node: "case fs p of
      Dir (Inr names) \<Rightarrow> (\<exists>names'. fs' p = Dir (Inr names') \<and> mset names' = mset names)
    | _ \<Rightarrow> fs' p = fs p"
    unfolding relisted_def by blast
  show "is_file fs' p = is_file fs p" and "is_dir fs' p = is_dir fs p"
    and "from_file fs' p = from_file fs p" and "open_read fs' p = open_read fs p"
    using node
    by (auto simp add: is_file_def is_dir_def from_file_def open_read_def
        split: node.splits sum.splits)
qed

lemma relisted_listing:
  assumes "relisted fs fs'" and "iterdir fs p = Inr names"
  obtains names' where "iterdir fs' p = Inr names'" and "mset names' = mset names"
proof -
  from assms(1) have node: "case fs p of
      Dir (Inr names) \<Rightarrow> (\<exists>names'. fs' p = Dir (Inr names') \<and> mset names' = mset names)
    | _ \<Rightarrow> fs' p = fs p"
    unfolding relisted_def by blast
  with assms(2) have "\<exists>names'. iterdir fs' p = Inr names' \<and> mset names' = mset names"
    by (auto simp add: iterdir_def split: node.splits sum.splits)
  with that show ?thesis by blast
qed

lemma read_files_relisted:
  "relisted fs fs' \<Longrightarrow> fst (read_files depth fs a d r out) = Inr files \<Longrightarrow>
   \<exists>files'. fst (read_files depth fs' a' d r out') = Inr files' \<and> mset files' = mset files"
proof (induction depth arbitrary: d files out out')
  case 0
  then show ?case by simp
next
  case (Suc depth)
  note rel = Suc.prems(1)
  from Suc.prems(2) obtain names where names: "iterdir fs d = Inr names"
    by (rule read_files_Inr_listing)
  from rel names obtain names' where names': "iterdir fs' d = Inr names'"
    and same: "mset names' = mset names"
    by (rule relisted_listing)
  let ?c = "entry_files (\<lambda>p. fst (read_files depth fs a p r [])) fs d r"
  let ?c' = "entry_files (\<lambda>p. fst (read_files depth fs' a' p r [])) fs' d r"
  from Suc.prems(2) have g: "gather ?c names [] = Inr files"
    by (simp add: read_files_gather [OF names])
  from gather_Inr [OF g] have ok: "\<forall>name\<in>set names. \<exists>ys. ?c name = Inr ys"
    and files: "files = concat (map (\<lambda>name. produced (?c name)) names)"
    by simp_all
  have each: "(\<exists>ys. ?c' name = Inr ys) \<and> mset (produced (?c' name)) = mset (produced (?c name))"
    if name: "name \<in> set names" for name
  proof -
    from ok name obtain ys where ys: "?c name = Inr ys" by blast
    note f = relisted_node(1) [OF rel, of "d @ [name]"]
      and g = relisted_node(2) [OF rel, of "d @ [name]"]
    show ?thesis
    proof (cases fs "d @ [name]" rule: entry_cases)
      case regular
      then show ?thesis by (simp add: entry_files_regular f)
    next
      case denied
      with ys show ?thesis by (simp add: entry_files_denied)
    next
      case other
      then show ?thesis by (simp add: entry_files_other f g)
    next
      case directory
      show ?thesis
      proof (cases r)
        case False
        with directory show ?thesis by (simp add: entry_files_directory f g)
      next
        case True
        with directory ys have "fst (read_files depth fs a (d @ [name]) r []) = Inr ys"
          by (simp add: entry_files_directory)
        from Suc.IH [OF rel this, of "[]"] directory True ys show ?thesis
          by (auto simp add: entry_files_directory f g)
      qed
    qed
  qed
  have set_eq: "set names' = set names"
    using same by (metis set_mset_mset)
  have ok': "\<forall>name\<in>set names'. \<exists>ys. ?c' name = Inr ys"
    using each set_eq by blast
  let ?files' = "concat (map (\<lambda>name. produced (?c' name)) names')"
  have run: "fst (read_files (Suc depth) fs' a' d r out') = Inr ?files'"
    using gather_all_Inr [OF ok', of "[]"] by (simp add: read_files_gather [OF names'])
  have "mset ?files' = (\<Sum>name\<in>#mset names. mset (produced (?c' name)))"
    by (simp add: mset_concat_map same)
  also have "\<dots> = (\<Sum>name\<in>#mset names. mset (produced (?c name)))"
    using each by (intro arg_cong [where f = sum_mset] image_mset_cong) simp
  also have "\<dots> = mset files"
    by (simp add: files mset_concat_map)
  finally show ?case using run by blast
qed

lemma sort_relisted: "mset xs = mset ys \<Longrightarrow> sort xs = sort ys"
  by (rule properties_for_sort) simp_all

lemma relisted_file: "relisted fs fs' \<Longrightarrow> is_file fs p = Inr True \<Longrightarrow> fs' p = fs p"
  unfolding relisted_def
  by (cases "fs p") (auto simp add: is_file_def dest: spec [where x = p])

subsection \<open>The loop of the index route\<close>

lemma match_file_type_frame:
  "match_file_type fs a w t out = printed_after out (match_file_type fs a w t [])"
  using vprint_frame [of a _ out]
  by (simp add: match_file_type_def split: sum.splits exn.splits)

lemma generate_html_frame:
  "generate_html fs a w out = printed_after out (generate_html fs a w [])"
proof (cases "from_file fs (file_path w)")
  case (Inl e)
  then show ?thesis by (simp add: generate_html_def)
next
  case (Inr t)
  obtain x msgs where m: "match_file_type fs a w t [] = (x, msgs)"
    by (cases "match_file_type fs a w t []")
  then have "match_file_type fs a w t out = (x, out @ msgs)"
    using match_file_type_frame [of fs a w t out] by simp
  with m show ?thesis
    by (cases x) (simp_all add: generate_html_typed [OF Inr])
qed

lemma render_file_frame:
  "render_file fs a p out = printed_after out (render_file fs a p [])"
proof (cases "WebFile_init a p")
  case (Inl e)
  then show ?thesis by (simp add: render_file_def)
next
  case (Inr w)
  obtain x msgs where g: "generate_html fs a w [] = (x, msgs)"
    by (cases "generate_html fs a w []")
  then have "generate_html fs a w out = (x, out @ msgs)"
    using generate_html_frame [of fs a w out] by simp
  with g show ?thesis
    by (cases x) (simp_all add: render_file_def Inr)
qed

lemma render_file_card: "fst (render_file fs a p out) = file_card fs a p"
  using render_file_frame [of fs a p out] by (simp add: file_card_def printed_after_def)

lemma index_loop_step:
  "index_loop fs a (p # ps) page out =
     (case render_file fs a p out of
        (Inl e, out') \<Rightarrow> (Inl e, out')
      | (Inr c, out') \<Rightarrow> index_loop fs a ps (page @ c) out')"
  by (simp add: render_file_def split: sum.splits prod.splits)

declare index_loop.simps(2) [simp del]

lemma index_loop_frame:
  "index_loop fs a ps page out = printed_after out (index_loop fs a ps page [])"
proof (induction ps arbitrary: page out)
  case Nil
  show ?case by simp
next
  case (Cons p ps)
  obtain x msgs where r: "render_file fs a p [] = (x, msgs)"
    by (cases "render_file fs a p []")
  then have here: "render_file fs a p out = (x, out @ msgs)"
    using render_file_frame [of fs a p out] by simp
  show ?case
  proof (cases x)
    case (Inl e)
    then show ?thesis by (simp add: index_loop_step r here)
  next
    case (Inr c)
    have "index_loop fs a (p # ps) page out = index_loop fs a ps (page @ c) (out @ msgs)"
      by (simp add: index_loop_step here Inr)
    also have "\<dots> = printed_after (out @ msgs) (index_loop fs a ps (page @ c) [])"
      by (rule Cons.IH)
    also have "\<dots> = printed_after out (printed_after msgs (index_loop fs a ps (page @ c) []))"
      by simp
    also have "printed_after msgs (index_loop fs a ps (page @ c) []) =
               index_loop fs a ps (page @ c) msgs"
      by (rule Cons.IH [symmetric])
    also have "\<dots> = index_loop fs a (p # ps) page []"
      by (simp add: index_loop_step r Inr)
    finally show ?thesis .
  qed
qed

lemma index_loop_gather:
  "fst (index_loop fs a ps page out) = gather (file_card fs a) ps page"
proof (induction ps arbitrary: page out)
  case Nil
  show ?case by simp
next
  case (Cons p ps)
  obtain x out1 where r: "render_file fs a p out = (x, out1)"
    by (cases "render_file fs a p out")
  then have c: "file_card fs a p = x"
    using render_file_card [of fs a p out] by simp
  show ?case
    using Cons.IH r c by (cases x) (simp_all add: index_loop_step)
qed

lemma index_frame: "index depth fs a out = printed_after out (index depth fs a [])"
proof -
  obtain x msgs where scan: "read_files depth fs a (scan_dir a) (recursive a) [] = (x, msgs)"
    by (cases "read_files depth fs a (scan_dir a) (recursive a) []")
  then have here: "read_files depth fs a (scan_dir a) (recursive a) out = (x, out @ msgs)"
    using read_files_frame [of depth fs a "scan_dir a" "recursive a" out] by simp
  show ?thesis
  proof (cases x)
    case (Inl e)
    then show ?thesis using scan here by (simp add: index_def)
  next
    case (Inr files)
    obtain y msgs' where l: "index_loop fs a (sort files) HTML_HEAD msgs = (y, msgs')"
      by (cases "index_loop fs a (sort files) HTML_HEAD msgs")
    have "index_loop fs a (sort files) HTML_HEAD (out @ msgs) =
          printed_after out (index_loop fs a (sort files) HTML_HEAD msgs)"
      using index_loop_frame [of fs a "sort files" HTML_HEAD "out @ msgs"]
        index_loop_frame [of fs a "sort files" HTML_HEAD msgs]
      by simp
    then have "index_loop fs a (sort files) HTML_HEAD (out @ msgs) = (y, out @ msgs')"
      using l by simp
    then show ?thesis
      using scan here Inr l by (cases y) (simp_all add: index_def)
  qed
qed

lemma index_result:
  "fst (index depth fs a out) =
     (case fst (read_files depth fs a (scan_dir a) (recursive a) out) of
        Inl e \<Rightarrow> Inl e
      | Inr files \<Rightarrow>
          (case gather (file_card fs a) (sort files) HTML_HEAD of
             Inl e \<Rightarrow> Inl e
           | Inr page \<Rightarrow> Inr (page @ HTML_FOOT)))"
proof -
  obtain x out1 where scan: "read_files depth fs a (scan_dir a) (recursive a) out = (x, out1)"
    by (cases "read_files depth fs a (scan_dir a) (recursive a) out")
  show ?thesis
  proof (cases x)
    case (Inl e)
    then show ?thesis using scan by (simp add: index_def)
  next
    case (Inr files)
    obtain y out2 where l: "index_loop fs a (sort files) HTML_HEAD out1 = (y, out2)"
      by (cases "index_loop fs a (sort files) HTML_HEAD out1")
    then have "gather (file_card fs a) (sort files) HTML_HEAD = y"
      using index_loop_gather [of fs a "sort files" HTML_HEAD out1] by simp
    then show ?thesis
      using scan Inr l by (cases y) (simp_all add: index_def)
  qed
qed

subsection \<open>The card of one file on its own\<close>




lemma file_card_local:
  assumes "fs' p = fs p"
  shows "file_card fs' a p = file_card fs a p"
proof (cases "WebFile_init a p")
  case (Inl e)
  then show ?thesis by (simp add: file_card_def render_file_def)
next
  case (Inr w)
  then have p: "file_path w = p"
    by (auto simp add: WebFile_init_def split: sum.splits)
  have ff: "from_file fs' (file_path w) = from_file fs (file_path w)"
    and rr: "open_read fs' (file_path w) = open_read fs (file_path w)"
    using assms by (simp_all add: p from_file_def open_read_def)
  have m: "match_file_type fs' a w t out = match_file_type fs a w t out" for t out
    by (simp add: match_file_type_def rr)
  have "generate_html fs' a w [] = generate_html fs a w []"
    by (simp add: generate_html_def ff m split: sum.splits)
  then show ?thesis
    by (simp add: file_card_def render_file_def Inr)
qed






subsection \<open>Escaping\<close>

lemma html_escape_length: "length cs \<le> length (html_escape cs)"
  by (induction cs) auto

lemma html_escape_plain:
  "set cs \<inter> {CHR ''&'', CHR ''<'', CHR ''>'', CHR 0x22, CHR 0x27} = {} \<Longrightarrow> html_escape cs = cs"
  by (induction cs) auto

lemma html_escape_changes:
  "html_escape cs = cs \<Longrightarrow> set cs \<inter> {CHR ''&'', CHR ''<'', CHR ''>'', CHR 0x22, CHR 0x27} = {}"
proof (induction cs)
  case Nil
  show ?case by simp
next
  case (Cons c cs)
  have "c \<noteq> CHR ''&''"
  proof
    assume "c = CHR ''&''"
    with Cons.prems have "''amp;'' @ html_escape cs = cs" by simp
    then have "length cs = 4 + length (html_escape cs)" by (metis length_append length_Cons list.size(3) One_nat_def add_Suc add_0 numeral_Bit0 numeral_One Suc_eq_plus1 add.commute)
    with html_escape_length [of cs] show False by simp
  qed
  moreover have "c \<noteq> CHR ''<''" "c \<noteq> CHR ''>''" "c \<noteq> CHR 0x22" "c \<noteq> CHR 0x27"
    using Cons.prems by (auto split: if_splits)
  ultimately show ?case using Cons by (auto split: if_splits)
qed

subsection \<open>The example file systems, evaluated\<close>

lemmas run_defs =
  index_def read_files.simps(2) read_files_loop.simps(2) index_loop.simps(2) is_dir_def is_file_def iterdir_def
  WebFile_init_def relative_to_def scan_dir_def generate_html_def from_file_def open_read_def
  match_file_type_def preview_html_def card_head_def get_html_def get_html_link_def
  get_html_text_plain_def get_html_image_def get_html_video_def path_str_def vprint_def
  VIDEO_MIME_TYPES_def IMAGE_MIME_TYPES_def srv_args_def text_file_def media_file_def
  undecodable_file_def unreadable_file_def





lemma flat_fs_relisting: "relisted flat_fs flat_fs_relisted"
  by (simp add: relisted_def flat_fs_relisted_def flat_fs_def text_file_def media_file_def
      undecodable_file_def)

lemma deep_fs_dir: "is_dir deep_fs [''srv''] = Inr True"
  by (simp add: is_dir_def deep_fs_def)











lemma flat_fs_relisted_scan:
  "read_files (Suc 0) flat_fs_relisted (srv_args False False) (scan_dir (srv_args False False))
     (recursive (srv_args False False)) [] =
     (Inr [[''srv'', ''bad.txt''], [''srv'', ''notes.txt''], [''srv'', ''b.png'']], [])"
  by (simp add: run_defs flat_fs_relisted_def flat_fs_def)

lemma flat_fs_page_verbose:
  \<open>index (Suc 0) flat_fs (srv_args False True) [] =
     (Inr (HTML_HEAD
       @ (''<div class="card bg-primary-subtle" style="width:90%; margin:0 auto;">''
          @ ''<div class="card-body">''
          @ ''<a class="link-primary" href="b.png" target="_blank">b.png</a> <sub>(image/png)</sub>''
          @ '' <button class="collapsible btn btn-secondary btn-sm">Open</button>''
          @ ''<div class="content"><img src="b.png" alt="Image Description"></div>''
          @ ''</div></div><br/>'')
       @ (''<div class="card bg-primary-subtle" style="width:90%; margin:0 auto;">''
          @ ''<div class="card-body">''
          @ ''<a class="link-primary" href="bad.txt" target="_blank">bad.txt</a> <sub>(text/plain)</sub>''
          @ ''</div></div><br/>'')
       @ (''<div class="card bg-primary-subtle" style="width:90%; margin:0 auto;">''
          @ ''<div class="card-body">''
          @ ''<a class="link-primary" href="notes.txt" target="_blank">notes.txt</a> <sub>(text/plain)</sub>''
          @ '' <button class="collapsible btn btn-secondary btn-sm">Open</button>''
          @ ''<div class="content"><div class="scroll-box">hello\<newline>world</div></div>''
          @ ''</div></div><br/>'')
       @ HTML_FOOT), [''Failed to decode srv/bad.txt''])\<close>
  by (simp add: run_defs flat_fs_def)

lemma flat_fs_scan_verbose:
  "fst (read_files (Suc 0) flat_fs (srv_args False True) (scan_dir (srv_args False True))
     (recursive (srv_args False True)) []) =
     Inr [[''srv'', ''notes.txt''], [''srv'', ''b.png''], [''srv'', ''bad.txt'']]"
  by (simp add: run_defs flat_fs_def)

subsection \<open>The page of an empty directory\<close>

text \<open>
  Claim C10. When the scanned directory exists and lists no entry, \<^verbatim>\<open>index\<close> returns the
  fixed head of the page followed at once by its fixed foot, and prints nothing.
\<close>

theorem index_empty_directory:
  assumes "iterdir fs (scan_dir a) = Inr []"
  shows "index (Suc depth) fs a out = (Inr (HTML_HEAD @ HTML_FOOT), out)"
  using assms by (simp add: index_def read_files_listing)

theorem index_empty_directory_witness:
  "index (Suc 0) empty_fs (srv_args False True) [] = (Inr (HTML_HEAD @ HTML_FOOT), [])"
  using index_empty_directory [of empty_fs "srv_args False True" 0 "[]"]
  by (simp add: empty_fs_def srv_args_def scan_dir_def iterdir_def)

subsection \<open>A root that is not a directory\<close>

text \<open>
  Claim C8, as the program has it. When \<^verbatim>\<open>is_dir()\<close> answers \<^verbatim>\<open>False\<close> for the path given to
  \<^verbatim>\<open>read_files\<close>, because the path is missing or is not a directory, the scan raises
  before it looks at any entry: the result is the \<^verbatim>\<open>TypeError\<close> with the message
  \<^verbatim>\<open>is not a directory\<close>, nothing is printed and no file is collected. When the path
  cannot be examined, \<^verbatim>\<open>is_dir()\<close> itself raises, and that exception is the result.
  \<^verbatim>\<open>index\<close> catches neither, so the page is not built.
\<close>

theorem not_a_directory_is_fatal:
  "(is_dir fs d = Inr False \<longrightarrow>
      read_files (Suc depth) fs a d r out =
        (Inl (TypeError (path_str d @ '' is not a directory'')), out)
      \<and> (scan_dir a = d \<longrightarrow>
           index (Suc depth) fs a out =
             (Inl (TypeError (path_str d @ '' is not a directory'')), out)))
   \<and> (is_dir fs d = Inl e \<longrightarrow>
      read_files (Suc depth) fs a d r out = (Inl e, out)
      \<and> (scan_dir a = d \<longrightarrow> index (Suc depth) fs a out = (Inl e, out)))"
  by (simp add: index_def read_files_not_dir read_files_denied)

theorem not_a_directory_is_fatal_witness:
  "is_dir empty_fs [''srv'', ''gone''] = Inr False
   \<and> read_files (Suc 0) empty_fs (srv_args False True) [''srv'', ''gone''] True [] =
       (Inl (TypeError ''srv/gone is not a directory''), [])
   \<and> index (Suc 0) empty_fs \<lparr>directory = [''srv'', ''gone''], recursive = True, verbose = True\<rparr> [] =
       (Inl (TypeError ''srv/gone is not a directory''), [])
   \<and> is_dir sealed_fs [''srv'', ''vault'', ''gone''] = Inl OSError
   \<and> index (Suc 0) sealed_fs
         \<lparr>directory = [''srv'', ''vault'', ''gone''], recursive = True, verbose = True\<rparr> [] =
       (Inl OSError, [])"
  using not_a_directory_is_fatal [where fs = empty_fs and d = "[''srv'', ''gone'']" and depth = 0
      and a = "\<lparr>directory = [''srv'', ''gone''], recursive = True, verbose = True\<rparr>"
      and r = True and out = "[]"]
    not_a_directory_is_fatal [where fs = empty_fs and d = "[''srv'', ''gone'']" and depth = 0
      and a = "srv_args False True" and r = True and out = "[]"]
    not_a_directory_is_fatal [where fs = sealed_fs and d = "[''srv'', ''vault'', ''gone'']"
      and e = OSError and depth = 0
      and a = "\<lparr>directory = [''srv'', ''vault'', ''gone''], recursive = True, verbose = True\<rparr>"
      and r = True and out = "[]"]
  by (simp add: empty_fs_def sealed_fs_def scan_dir_def is_dir_def path_str_def)

text \<open>
  The claim as the specification words it promises the error that names the directory
  for every path that does not exist. In \<open>sealed_fs\<close> no path below \<^verbatim>\<open>srv/vault\<close> can be
  examined; \<^verbatim>\<open>srv/vault/gone\<close> does not exist, and the scan of it ends with the
  \<^verbatim>\<open>OSError\<close> that \<^verbatim>\<open>is_dir()\<close> raises.
\<close>

theorem unexaminable_root_raises_OSError:
  "sealed_fs [''srv'', ''vault'', ''gone''] = Denied
   \<and> read_files (Suc 0) sealed_fs (srv_args False False) [''srv'', ''vault'', ''gone''] False [] =
       (Inl OSError, [])"
  by (simp add: sealed_fs_def read_files.simps(2) is_dir_def)

subsection \<open>The preview follows the detected type\<close>

text \<open>
  Claim C7. Once the type of a file is detected, the preview depends on the type alone.
  A video type gives the \<^verbatim>\<open>video\<close> element whose source is the relative path of the file
  and whose type is the detected type; an image type gives the \<^verbatim>\<open>img\<close> element whose
  source is the relative path; any other type but \<^verbatim>\<open>text/plain\<close> gives no preview.
  Whenever a card is produced it starts with the link to the relative path, labelled
  with the relative path, and the detected type in brackets. The markup is written out
  as the program writes it.
\<close>

theorem preview_by_content_type:
  assumes "from_file fs (file_path w) = Inr t"
  shows \<open>let rel = path_str (file_rel_path w);
             link = ''<div class="card bg-primary-subtle" style="width:90%; margin:0 auto;">''
                    @ ''<div class="card-body">''
                    @ ''<a class="link-primary" href="'' @ rel @ ''" target="_blank">'' @ rel
                    @ ''</a>'' @ '' <sub>('' @ t @ '')</sub>''
         in
           (t \<in> {''video/mp4'', ''video/webm'', ''video/ogg''} \<longrightarrow>
              generate_html fs a w out =
                (Inr (w\<lparr>file_type := Some t,
                         html := Some (link
                           @ '' <button class="collapsible btn btn-secondary btn-sm">Open</button>''
                           @ ''<div class="content">''
                           @ ''<video controls><source src="'' @ rel @ ''" type="'' @ t
                           @ ''"></video>''
                           @ ''</div>'' @ ''</div></div><br/>'')\<rparr>), out))
         \<and> (t \<in> {''image/jpeg'', ''image/png'', ''image/gif'', ''image/svg+xml'',
                   ''image/webp'', ''image/bmp'', ''image/x-icon'', ''image/tiff'',
                   ''image/jp2''} \<longrightarrow>
              generate_html fs a w out =
                (Inr (w\<lparr>file_type := Some t,
                         html := Some (link
                           @ '' <button class="collapsible btn btn-secondary btn-sm">Open</button>''
                           @ ''<div class="content">''
                           @ ''<img src="'' @ rel @ ''" alt="Image Description">''
                           @ ''</div>'' @ ''</div></div><br/>'')\<rparr>), out))
         \<and> (t \<notin> {''video/mp4'', ''video/webm'', ''video/ogg''} \<and>
              t \<notin> {''image/jpeg'', ''image/png'', ''image/gif'', ''image/svg+xml'',
                   ''image/webp'', ''image/bmp'', ''image/x-icon'', ''image/tiff'',
                   ''image/jp2''} \<and>
              t \<noteq> ''text/plain'' \<longrightarrow>
              generate_html fs a w out =
                (Inr (w\<lparr>file_type := Some t,
                         html := Some (link @ ''</div></div><br/>'')\<rparr>), out))
         \<and> (\<forall>w' out'. generate_html fs a w out = (Inr w', out') \<longrightarrow>
                (\<exists>rest. html w' = Some (link @ rest)))\<close>
proof -
  have link: \<open>card_head w t =
      ''<div class="card bg-primary-subtle" style="width:90%; margin:0 auto;">''
      @ ''<div class="card-body">''
      @ ''<a class="link-primary" href="'' @ path_str (file_rel_path w) @ ''" target="_blank">''
      @ path_str (file_rel_path w) @ ''</a>'' @ '' <sub>('' @ t @ '')</sub>''\<close>
    by (simp add: card_head_def get_html_link_def)
  have video: \<open>generate_html fs a w out =
      (Inr (w\<lparr>file_type := Some t,
               html := Some (card_head w t
                 @ '' <button class="collapsible btn btn-secondary btn-sm">Open</button>''
                 @ ''<div class="content">''
                 @ ''<video controls><source src="'' @ path_str (file_rel_path w)
                 @ ''" type="'' @ t @ ''"></video>''
                 @ ''</div>'' @ ''</div></div><br/>'')\<rparr>), out)\<close>
    if "t \<in> set VIDEO_MIME_TYPES"
  proof -
    have "generate_html fs a w out =
      (Inr (w\<lparr>file_type := Some t,
               html := Some (card_head w t
                 @ preview_html (Some (get_html_video (path_str (file_rel_path w)) t))
                 @ ''</div></div><br/>'')\<rparr>), out)"
      using that by (simp add: generate_html_typed [OF assms] match_video)
    then show ?thesis
      unfolding preview_html_Some [OF get_html_video_not_empty]
      by (simp add: get_html_video_def)
  qed
  have image: \<open>generate_html fs a w out =
      (Inr (w\<lparr>file_type := Some t,
               html := Some (card_head w t
                 @ '' <button class="collapsible btn btn-secondary btn-sm">Open</button>''
                 @ ''<div class="content">''
                 @ ''<img src="'' @ path_str (file_rel_path w) @ ''" alt="Image Description">''
                 @ ''</div>'' @ ''</div></div><br/>'')\<rparr>), out)\<close>
    if "t \<in> set IMAGE_MIME_TYPES"
  proof -
    have "generate_html fs a w out =
      (Inr (w\<lparr>file_type := Some t,
               html := Some (card_head w t
                 @ preview_html (Some (get_html_image (path_str (file_rel_path w))))
                 @ ''</div></div><br/>'')\<rparr>), out)"
      using that by (simp add: generate_html_typed [OF assms] match_image)
    then show ?thesis
      unfolding preview_html_Some [OF get_html_image_not_empty]
      by (simp add: get_html_image_def)
  qed
  have none: "generate_html fs a w out =
      (Inr (w\<lparr>file_type := Some t, html := Some (card_head w t @ ''</div></div><br/>'')\<rparr>), out)"
    if "t \<notin> set VIDEO_MIME_TYPES" and "t \<notin> set IMAGE_MIME_TYPES" and "t \<noteq> ''text/plain''"
    using that
    by (simp add: generate_html_typed [OF assms] match_other preview_html_None)
  have start: "\<exists>rest. html w' = Some (card_head w t @ rest)"
    if "generate_html fs a w out = (Inr w', out')" for w' out'
    using that
    by (auto simp add: generate_html_typed [OF assms] split: prod.splits sum.splits)
  show ?thesis
    unfolding Let_def video_types [symmetric] image_types [symmetric] link [symmetric]
    using video image none start by blast
qed

theorem preview_by_content_type_witness:
  \<open>generate_html deep_fs (srv_args True True)
      \<lparr>file_path = [''srv'', ''sub'', ''clip.mp4''], file_rel_path = [''sub'', ''clip.mp4''],
       file_type = None, html = None\<rparr> [] =
    (Inr \<lparr>file_path = [''srv'', ''sub'', ''clip.mp4''], file_rel_path = [''sub'', ''clip.mp4''],
          file_type = Some ''video/mp4'',
          html = Some (''<div class="card bg-primary-subtle" style="width:90%; margin:0 auto;">''
            @ ''<div class="card-body">''
            @ ''<a class="link-primary" href="sub/clip.mp4" target="_blank">sub/clip.mp4</a>''
            @ '' <sub>(video/mp4)</sub>''
            @ '' <button class="collapsible btn btn-secondary btn-sm">Open</button>''
            @ ''<div class="content">''
            @ ''<video controls><source src="sub/clip.mp4" type="video/mp4"></video>''
            @ ''</div></div></div><br/>'')\<rparr>, [])
   \<and> generate_html flat_fs (srv_args False True)
      \<lparr>file_path = [''srv'', ''b.png''], file_rel_path = [''b.png''],
       file_type = None, html = None\<rparr> [] =
    (Inr \<lparr>file_path = [''srv'', ''b.png''], file_rel_path = [''b.png''],
          file_type = Some ''image/png'',
          html = Some (''<div class="card bg-primary-subtle" style="width:90%; margin:0 auto;">''
            @ ''<div class="card-body">''
            @ ''<a class="link-primary" href="b.png" target="_blank">b.png</a>''
            @ '' <sub>(image/png)</sub>''
            @ '' <button class="collapsible btn btn-secondary btn-sm">Open</button>''
            @ ''<div class="content">''
            @ ''<img src="b.png" alt="Image Description">''
            @ ''</div></div></div><br/>'')\<rparr>, [])
   \<and> generate_html archive_fs (srv_args False True)
      \<lparr>file_path = [''srv'', ''old'', ''all.zip''], file_rel_path = [''old'', ''all.zip''],
       file_type = None, html = None\<rparr> [] =
    (Inr \<lparr>file_path = [''srv'', ''old'', ''all.zip''], file_rel_path = [''old'', ''all.zip''],
          file_type = Some ''application/zip'',
          html = Some (''<div class="card bg-primary-subtle" style="width:90%; margin:0 auto;">''
            @ ''<div class="card-body">''
            @ ''<a class="link-primary" href="old/all.zip" target="_blank">old/all.zip</a>''
            @ '' <sub>(application/zip)</sub>''
            @ ''</div></div><br/>'')\<rparr>, [])\<close>
proof -
  have v: "from_file deep_fs (file_path
      \<lparr>file_path = [''srv'', ''sub'', ''clip.mp4''], file_rel_path = [''sub'', ''clip.mp4''],
       file_type = None, html = None\<rparr>) = Inr ''video/mp4''"
    by (simp add: from_file_def deep_fs_def media_file_def)
  have i: "from_file flat_fs (file_path
      \<lparr>file_path = [''srv'', ''b.png''], file_rel_path = [''b.png''],
       file_type = None, html = None\<rparr>) = Inr ''image/png''"
    by (simp add: from_file_def flat_fs_def media_file_def)
  have z: "from_file archive_fs (file_path
      \<lparr>file_path = [''srv'', ''old'', ''all.zip''], file_rel_path = [''old'', ''all.zip''],
       file_type = None, html = None\<rparr>) = Inr ''application/zip''"
    by (simp add: from_file_def archive_fs_def media_file_def)
  from preview_by_content_type [OF v, of "srv_args True True" "[]"]
    preview_by_content_type [OF i, of "srv_args False True" "[]"]
    preview_by_content_type [OF z, of "srv_args False True" "[]"]
  show ?thesis
    by (simp add: Let_def path_str_def)
qed

subsection \<open>Text that does not decode\<close>




subsection \<open>A directory of regular files\<close>




subsection \<open>What the scan collects on a tree\<close>




subsection \<open>A link back to an ancestor\<close>



subsection \<open>The preview of a text file\<close>

text \<open>
  Claim C3, as the program has it. A file detected as \<^verbatim>\<open>text/plain\<close> whose content decodes
  gets a preview that holds the decoded text as it is: the program does not escape it.
  The preview equals the escaped text exactly when the text holds none of the characters
  that escaping replaces, as in \<^verbatim>\<open>hello\<close>, a line break, \<^verbatim>\<open>world\<close>.
\<close>

theorem text_preview_is_literal:
  assumes "from_file fs (file_path w) = Inr ''text/plain''"
    and "open_read fs (file_path w) = Inr content"
  shows \<open>generate_html fs a w out =
           (Inr (w\<lparr>file_type := Some ''text/plain'',
                    html := Some (card_head w ''text/plain''
                      @ '' <button class="collapsible btn btn-secondary btn-sm">Open</button>''
                      @ ''<div class="content">''
                      @ (''<div class="scroll-box">'' @ content @ ''</div>'')
                      @ ''</div>'' @ ''</div></div><br/>'')\<rparr>), out)
         \<and> (html_escape content = content \<longleftrightarrow>
              set content \<inter> {CHR ''&'', CHR ''<'', CHR ''>'', CHR 0x22, CHR 0x27} = {})\<close>
proof
  have "preview_html (Some (get_html_text_plain content)) =
          '' <button class=\"collapsible btn btn-secondary btn-sm\">Open</button>''
          @ ''<div class=\"content\">'' @ get_html_text_plain content @ ''</div>''"
    by (rule preview_html_Some [OF get_html_text_plain_not_empty])
  then show \<open>generate_html fs a w out =
           (Inr (w\<lparr>file_type := Some ''text/plain'',
                    html := Some (card_head w ''text/plain''
                      @ '' <button class="collapsible btn btn-secondary btn-sm">Open</button>''
                      @ ''<div class="content">''
                      @ (''<div class="scroll-box">'' @ content @ ''</div>'')
                      @ ''</div>'' @ ''</div></div><br/>'')\<rparr>), out)\<close>
    unfolding get_html_text_plain_def
    by (simp only: generate_html_typed [OF assms(1)] match_text [OF assms(2)] prod.case sum.case
        get_html_text_plain_def append_assoc)
next
  show "html_escape content = content \<longleftrightarrow>
          set content \<inter> {CHR ''&'', CHR ''<'', CHR ''>'', CHR 0x22, CHR 0x27} = {}"
    using html_escape_plain html_escape_changes by blast
qed

theorem text_preview_is_literal_witness:
  \<open>generate_html flat_fs (srv_args False False)
      \<lparr>file_path = [''srv'', ''notes.txt''], file_rel_path = [''notes.txt''],
       file_type = None, html = None\<rparr> [] =
    (Inr \<lparr>file_path = [''srv'', ''notes.txt''], file_rel_path = [''notes.txt''],
          file_type = Some ''text/plain'',
          html = Some (''<div class="card bg-primary-subtle" style="width:90%; margin:0 auto;">''
            @ ''<div class="card-body">''
            @ ''<a class="link-primary" href="notes.txt" target="_blank">notes.txt</a>''
            @ '' <sub>(text/plain)</sub>''
            @ '' <button class="collapsible btn btn-secondary btn-sm">Open</button>''
            @ ''<div class="content">''
            @ ''<div class="scroll-box">hello\<newline>world</div>''
            @ ''</div></div></div><br/>'')\<rparr>, [])
   \<and> html_escape ''hello\<newline>world'' = ''hello\<newline>world''\<close>
  using text_preview_is_literal [of flat_fs
      "\<lparr>file_path = [''srv'', ''notes.txt''], file_rel_path = [''notes.txt''],
       file_type = None, html = None\<rparr>" "''hello\<newline>world''" "srv_args False False" "[]"]
  by (simp add: from_file_def open_read_def flat_fs_def text_file_def card_head_def
      get_html_link_def path_str_def)

text \<open>
  The claim as the specification words it asks for the escaped text. The file \<^verbatim>\<open>a.txt\<close>
  of \<open>deep_fs\<close> holds a tag, and the page holds the tag unchanged.
\<close>

theorem text_preview_is_not_escaped:
  \<open>from_file deep_fs [''srv'', ''a.txt''] = Inr ''text/plain''
   \<and> open_read deep_fs [''srv'', ''a.txt''] = Inr ''<b>''
   \<and> html_escape ''<b>'' = ''&lt;b&gt;''
   \<and> get_html_text_plain ''<b>'' \<noteq> get_html_text_plain (html_escape ''<b>'')
   \<and> index (Suc 0) deep_fs (srv_args False False) [] =
     (Inr (HTML_HEAD
       @ (''<div class="card bg-primary-subtle" style="width:90%; margin:0 auto;">''
          @ ''<div class="card-body">''
          @ ''<a class="link-primary" href="a.txt" target="_blank">a.txt</a> <sub>(text/plain)</sub>''
          @ '' <button class="collapsible btn btn-secondary btn-sm">Open</button>''
          @ ''<div class="content"><div class="scroll-box"><b></div></div>''
          @ ''</div></div><br/>'')
       @ HTML_FOOT), [])\<close>
  by (simp add: run_defs deep_fs_def)

subsection \<open>Which exceptions end the build\<close>




subsection \<open>Building the page again\<close>

text \<open>
  Claim C9. The build reads the file system and the arguments and changes the printed
  output only, so a second build, started from the output the first one left, returns
  what the first one returned. The order in which the operating system lists the
  entries of a directory is not part of the tree; the file list is sorted before it is
  rendered, so when the scan returns, a build against the same tree with the entries of
  every directory listed in any other order returns the same page, byte for byte, or
  ends with the same exception.
\<close>

theorem index_is_repeatable:
  assumes "index depth fs a out = (res, out1)"
  shows "fst (index depth fs a out1) = res
       \<and> (\<forall>fs' out'.
            relisted fs fs' \<and>
            (\<exists>files. fst (read_files depth fs a (scan_dir a) (recursive a) out) = Inr files) \<longrightarrow>
            fst (index depth fs' a out') = res)"
proof (intro conjI allI impI)
  have "fst (index depth fs a out1) = fst (index depth fs a [])"
    by (subst index_frame) (simp add: printed_after_def split: prod.splits)
  also have "\<dots> = fst (index depth fs a out)"
    by (subst (2) index_frame) (simp add: printed_after_def split: prod.splits)
  finally show "fst (index depth fs a out1) = res"
    using assms by simp
next
  fix fs' out'
  assume "relisted fs fs' \<and>
      (\<exists>files. fst (read_files depth fs a (scan_dir a) (recursive a) out) = Inr files)"
  then obtain files where rel: "relisted fs fs'"
    and scan: "fst (read_files depth fs a (scan_dir a) (recursive a) out) = Inr files"
    by blast
  from read_files_relisted [OF rel scan, of a out'] obtain files'
    where scan': "fst (read_files depth fs' a (scan_dir a) (recursive a) out') = Inr files'"
      and same: "mset files' = mset files"
    by blast
  have order: "sort files' = sort files"
    using same by (rule sort_relisted)
  have "\<forall>p\<in>set (sort files). file_card fs' a p = file_card fs a p"
  proof
    fix p assume "p \<in> set (sort files)"
    with read_files_found [OF scan] have "is_file fs p = Inr True" by simp
    with rel have "fs' p = fs p" by (rule relisted_file)
    then show "file_card fs' a p = file_card fs a p" by (rule file_card_local)
  qed
  then have "gather (file_card fs' a) (sort files) HTML_HEAD =
      gather (file_card fs a) (sort files) HTML_HEAD"
    by (rule gather_cong)
  then have "fst (index depth fs' a out') = fst (index depth fs a out)"
    by (simp add: index_result scan scan' order)
  then show "fst (index depth fs' a out') = res"
    using assms by simp
qed

theorem index_is_repeatable_witness:
  \<open>index (Suc 0) flat_fs (srv_args False True) [] =
     (Inr (HTML_HEAD
       @ (''<div class="card bg-primary-subtle" style="width:90%; margin:0 auto;">''
          @ ''<div class="card-body">''
          @ ''<a class="link-primary" href="b.png" target="_blank">b.png</a> <sub>(image/png)</sub>''
          @ '' <button class="collapsible btn btn-secondary btn-sm">Open</button>''
          @ ''<div class="content"><img src="b.png" alt="Image Description"></div>''
          @ ''</div></div><br/>'')
       @ (''<div class="card bg-primary-subtle" style="width:90%; margin:0 auto;">''
          @ ''<div class="card-body">''
          @ ''<a class="link-primary" href="bad.txt" target="_blank">bad.txt</a> <sub>(text/plain)</sub>''
          @ ''</div></div><br/>'')
       @ (''<div class="card bg-primary-subtle" style="width:90%; margin:0 auto;">''
          @ ''<div class="card-body">''
          @ ''<a class="link-primary" href="notes.txt" target="_blank">notes.txt</a> <sub>(text/plain)</sub>''
          @ '' <button class="collapsible btn btn-secondary btn-sm">Open</button>''
          @ ''<div class="content"><div class="scroll-box">hello\<newline>world</div></div>''
          @ ''</div></div><br/>'')
       @ HTML_FOOT), [''Failed to decode srv/bad.txt''])
   \<and> fst (index (Suc 0) flat_fs (srv_args False True) [''Failed to decode srv/bad.txt'']) =
       fst (index (Suc 0) flat_fs (srv_args False True) [])
   \<and> iterdir flat_fs [''srv''] = Inr [''notes.txt'', ''b.png'', ''bad.txt'']
   \<and> iterdir flat_fs_relisted [''srv''] = Inr [''bad.txt'', ''notes.txt'', ''b.png'']
   \<and> relisted flat_fs flat_fs_relisted
   \<and> fst (index (Suc 0) flat_fs_relisted (srv_args False True) []) =
       fst (index (Suc 0) flat_fs (srv_args False True) [])\<close>
proof -
  note run = index_is_repeatable [OF flat_fs_page_verbose]
  have again: "fst (index (Suc 0) flat_fs (srv_args False True) [''Failed to decode srv/bad.txt'']) =
       fst (index (Suc 0) flat_fs (srv_args False True) [])"
    using run [THEN conjunct1] by (simp only: flat_fs_page_verbose fst_conv)
  have other: "relisted flat_fs flat_fs_relisted \<and>
      (\<exists>files. fst (read_files (Suc 0) flat_fs (srv_args False True)
         (scan_dir (srv_args False True)) (recursive (srv_args False True)) []) = Inr files)"
    using flat_fs_relisting flat_fs_scan_verbose by blast
  have relisted: "fst (index (Suc 0) flat_fs_relisted (srv_args False True) []) =
       fst (index (Suc 0) flat_fs (srv_args False True) [])"
    using run [THEN conjunct2, THEN spec, THEN spec, THEN mp, OF other, of "[]"]
    by (simp only: flat_fs_page_verbose fst_conv)
  have listings: "iterdir flat_fs [''srv''] = Inr [''notes.txt'', ''b.png'', ''bad.txt'']"
    "iterdir flat_fs_relisted [''srv''] = Inr [''bad.txt'', ''notes.txt'', ''b.png'']"
    by (simp_all add: iterdir_def flat_fs_def flat_fs_relisted_def)
  from flat_fs_page_verbose again listings flat_fs_relisting relisted
  show ?thesis by (simp only: simp_thms)
qed

end
